theory Spec2Isabelle
  imports Main
begin

section \<open>Python values used by find-initials.py\<close>

text \<open>
  A Python \<open>str\<close> is a sequence of Unicode code points; slicing, \<open>len\<close> and
  \<open>count\<close> all work on code points. A code point is modelled as a natural number and
  a \<open>str\<close> as a list of them. \<open>lit\<close> turns an ASCII literal of the source into
  such a list.
\<close>

type_synonym str = "nat list"

definition lit :: "string \<Rightarrow> str" where
  "lit s = map of_char s"

text \<open>The line feed, written \<^verbatim>\<open>'\n'\<close> in the source.\<close>

definition NL :: nat where
  "NL = 10"

text \<open>The closing brace, code point 125.\<close>

definition RBRACE :: nat where
  "RBRACE = 125"

text \<open>
  \<open>str(n)\<close> for a non-negative integer, as the f-strings of the script apply it to
  \<open>len(results)\<close> and \<open>line_num\<close>: the decimal digits, most significant first.
\<close>

fun str_of_nat :: "nat \<Rightarrow> str" where
  "str_of_nat n = (if n < 10 then [48 + n] else str_of_nat (n div 10) @ [48 + n mod 10])"

declare str_of_nat.simps [simp del]

section \<open>The regular expression engine (\<open>re\<close>)\<close>

text \<open>
  The fragment of Python's \<open>re\<close> that the pattern \<^verbatim>\<open>initial=\{\{[^}]+\}\}\<close> uses:
  a pattern is a sequence of items, an item is one atom or a greedy \<open>+\<close> repetition of
  one atom, and an atom is a literal character or a negated character class. A negated
  class matches every character outside it, the line feed included, whatever the flags;
  \<open>re.MULTILINE\<close> and \<open>re.DOTALL\<close> only change \<open>^\<close>, \<open>$\<close> and \<open>.\<close>, which the pattern
  does not contain.
\<close>

datatype atom = Chr nat | NotIn "nat list"

datatype item = One atom | OneOrMore atom

type_synonym regex = "item list"

fun atom_ok :: "atom \<Rightarrow> nat \<Rightarrow> bool" where
  "atom_ok (Chr c) x = (x = c)"
| "atom_ok (NotIn cs) x = (x \<notin> set cs)"

text \<open>
  \<open>match_here p s\<close> is the backtracking match of \<open>p\<close> anchored at the start of \<open>s\<close>: the
  number of characters consumed, or \<open>None\<close>. A \<open>+\<close> item is greedy: after one character
  it first tries to take another one, and only when the rest of the pattern then fails
  does it give the character back and go on with the rest of the pattern.
\<close>

fun match_here :: "regex \<Rightarrow> str \<Rightarrow> nat option" where
  "match_here [] s = Some 0"
| "match_here (One a # p) [] = None"
| "match_here (One a # p) (x # s) =
     (if atom_ok a x then map_option Suc (match_here p s) else None)"
| "match_here (OneOrMore a # p) [] = None"
| "match_here (OneOrMore a # p) (x # s) =
     (if atom_ok a x then
        (case match_here (OneOrMore a # p) s of
           Some n \<Rightarrow> Some (Suc n)
         | None \<Rightarrow> map_option Suc (match_here p s))
      else None)"

text \<open>A match object: the searched string and the span of the match in it.\<close>

record re_match =
  m_string :: str
  m_start :: nat
  m_end :: nat

text \<open>\<open>match.group(0)\<close> is \<open>string[start:end]\<close>.\<close>

definition group0 :: "re_match \<Rightarrow> str" where
  "group0 m = take (m_end m - m_start m) (drop (m_start m) (m_string m))"

text \<open>
  The scan behind \<open>re.finditer\<close>: try the anchored matcher at \<open>pos\<close>; on a match yield
  it and go on at its end, otherwise go on at \<open>pos + 1\<close>. After an empty match the scan
  moves one character on, so that it always advances. The anchored matcher is a
  parameter, so that the same scan also runs the matcher worded by the specification.
\<close>

function scan_from :: "(str \<Rightarrow> nat option) \<Rightarrow> str \<Rightarrow> nat \<Rightarrow> re_match list" where
  "scan_from f s pos =
     (if length s < pos then []
      else case f (drop pos s) of
             None \<Rightarrow> scan_from f s (pos + 1)
           | Some n \<Rightarrow>
               \<lparr>m_string = s, m_start = pos, m_end = pos + n\<rparr>
                 # scan_from f s (if n = 0 then pos + 1 else pos + n))"
  by pat_completeness auto
termination
  by (relation "measure (\<lambda>(f, s, pos). Suc (length s) - pos)") auto

declare scan_from.simps [simp del]

definition finditer :: "regex \<Rightarrow> str \<Rightarrow> re_match list" where
  "finditer p s = scan_from (match_here p) s 0"

section \<open>The script\<close>

text \<open>The pattern \<^verbatim>\<open>r'initial=\{\{[^}]+\}\}'\<close>.\<close>

definition pattern :: regex where
  "pattern = map (\<lambda>c. One (Chr c)) (lit ''initial={{'')
             @ [OneOrMore (NotIn (lit ''}''))]
             @ map (\<lambda>c. One (Chr c)) (lit ''}}'')"

text \<open>\<open>line_num = content[:match.start()].count('\n') + 1\<close>\<close>

definition line_num :: "str \<Rightarrow> re_match \<Rightarrow> nat" where
  "line_num content m = count_list (take (m_start m) content) NL + 1"

text \<open>\<open>snippet = match.group(0)[:80]\<close>\<close>

definition snippet :: "re_match \<Rightarrow> str" where
  "snippet m = take 80 (group0 m)"

text \<open>The f-string \<^verbatim>\<open>f"{tsx_file.name}:{line_num}: {snippet}"\<close>.\<close>

definition result_line :: "str \<Rightarrow> nat \<Rightarrow> str \<Rightarrow> str" where
  "result_line name ln sn = name @ lit '':'' @ str_of_nat ln @ lit '': '' @ sn"

text \<open>The inner loop \<open>for match in matches\<close>, appending to \<open>results\<close>.\<close>

fun match_loop :: "str \<Rightarrow> str \<Rightarrow> re_match list \<Rightarrow> str list \<Rightarrow> str list" where
  "match_loop name content [] results = results"
| "match_loop name content (m # ms) results =
     match_loop name content ms
       (results @ [result_line name (line_num content m) (snippet m)])"

text \<open>
  Opening and reading a file either gives its text or raises: \<open>open\<close> raises an
  \<open>OSError\<close>, \<open>f.read()\<close> a \<open>UnicodeDecodeError\<close>. A directory entry is the file's
  name together with what opening and reading it gives.
\<close>

datatype error = OSError | UnicodeDecodeError

type_synonym dir_entry = "str \<times> (error + str)"

text \<open>
  The outer loop \<open>for tsx_file in components_dir.glob('*.tsx')\<close>. Nothing catches an
  exception of \<open>open\<close> or \<open>read\<close>, so the first one ends the loop and the program.
\<close>

fun file_loop :: "dir_entry list \<Rightarrow> str list \<Rightarrow> error + str list" where
  "file_loop [] results = Inr results"
| "file_loop ((name, rd) # fs) results =
     (case rd of
        Inl e \<Rightarrow> Inl e
      | Inr content \<Rightarrow>
          file_loop fs (match_loop name content (finditer pattern content) results))"

text \<open>
  \<open>glob('*.tsx')\<close> keeps, in the order of the directory listing, the entries whose
  name ends in \<open>.tsx\<close>.
\<close>

definition fnmatch_tsx :: "str \<Rightarrow> bool" where
  "fnmatch_tsx name =
     (4 \<le> length name \<and> drop (length name - 4) name = lit ''.tsx'')"

definition glob_tsx :: "dir_entry list \<Rightarrow> dir_entry list" where
  "glob_tsx entries = filter (\<lambda>e. fnmatch_tsx (fst e)) entries"

text \<open>
  What the program can see and change: the listing of the components directory and
  the text on standard output. \<open>print\<close> appends its argument and a line feed.
\<close>

record world =
  files :: "dir_entry list"
  stdout :: str

definition print :: "str \<Rightarrow> world \<Rightarrow> world" where
  "print s w = w\<lparr>stdout := stdout w @ s @ [NL]\<rparr>"

text \<open>\<open>for r in results: print(r)\<close>\<close>

fun print_all :: "str list \<Rightarrow> world \<Rightarrow> world" where
  "print_all [] w = w"
| "print_all (r # rs) w = print_all rs (print r w)"

text \<open>
  The report. The first message is an f-string, in which \<^verbatim>\<open>{{\<close> and \<^verbatim>\<open>}}\<close> are the
  escapes of a single brace, so \<^verbatim>\<open>initial={{}}\<close> in the source prints as
  \<^verbatim>\<open>initial={}\<close>, and it ends with a line feed of its own before the one \<open>print\<close>
  adds. The second message is an ordinary string and prints as written.
\<close>

definition report :: "str list \<Rightarrow> world \<Rightarrow> world" where
  "report results w =
     (if results \<noteq> [] then
        print_all results
          (print (lit ''Found '' @ str_of_nat (length results)
                  @ lit '' remaining initial={} patterns:'' @ [NL]) w)
      else print (lit ''No remaining initial={{}} patterns found!'') w)"

text \<open>
  How the process ends: normally, or with an uncaught exception, for which the
  interpreter prints a traceback on standard error and exits with status 1.
\<close>

datatype exit = Normal | Uncaught error

fun exit_status :: "exit \<Rightarrow> nat" where
  "exit_status Normal = 0"
| "exit_status (Uncaught e) = 1"

text \<open>The whole script: \<open>results = []\<close>, the scan, then the report.\<close>

definition main :: "world \<Rightarrow> exit \<times> world" where
  "main w =
     (case file_loop (glob_tsx (files w)) [] of
        Inl e \<Rightarrow> (Uncaught e, w)
      | Inr results \<Rightarrow> (Normal, report results w))"

section \<open>The matcher as the specification words it\<close>

text \<open>
  The specification describes a match as \<^verbatim>\<open>initial={{\<close> followed by any characters up
  to the first \<^verbatim>\<open>}}\<close>. \<open>find_close s\<close> is the offset of the first \<^verbatim>\<open>}}\<close> in \<open>s\<close>, and
  \<open>spec_match_here\<close> the anchored matcher worded that way.
\<close>

fun find_close :: "str \<Rightarrow> nat option" where
  "find_close (x # y # s) =
     (if x = RBRACE \<and> y = RBRACE then Some 0 else map_option Suc (find_close (y # s)))"
| "find_close s = None"

definition spec_match_here :: "str \<Rightarrow> nat option" where
  "spec_match_here s =
     (if take 10 s = lit ''initial={{''
      then map_option (\<lambda>k. 10 + k + 2) (find_close (drop 10 s))
      else None)"

definition spec_finditer :: "str \<Rightarrow> re_match list" where
  "spec_finditer s = scan_from spec_match_here s 0"

section \<open>The anchored matcher on the pattern\<close>

lemma match_here_le: "match_here p s = Some n \<Longrightarrow> n \<le> length s"
  by (induction p s arbitrary: n rule: match_here.induct)
     (auto split: if_splits option.splits)

lemma match_here_literals:
  "match_here (map (\<lambda>c. One (Chr c)) cs @ p) s =
     (if take (length cs) s = cs
      then map_option (\<lambda>n. length cs + n) (match_here p (drop (length cs) s))
      else None)"
proof (induction cs arbitrary: s)
  case Nil
  then show ?case by (cases "match_here p s") simp_all
next
  case (Cons c cs)
  show ?case
  proof (cases s)
    case Nil
    then show ?thesis by simp
  next
    case (Cons x t)
    then show ?thesis
      using Cons.IH [of t] by (auto simp: option.map_comp comp_def)
  qed
qed

lemma match_here_two:
  "match_here [One (Chr c), One (Chr c)] s = (if take 2 s = [c, c] then Some 2 else None)"
proof (cases s)
  case Nil
  then show ?thesis by simp
next
  case (Cons x t)
  then show ?thesis by (cases t) auto
qed

lemma match_here_plus_close:
  "match_here [OneOrMore (NotIn [c]), One (Chr c), One (Chr c)] s =
     (let b = takeWhile (\<lambda>x. x \<noteq> c) s
      in if b \<noteq> [] \<and> take 2 (drop (length b) s) = [c, c]
         then Some (length b + 2) else None)"
proof (induction s)
  case Nil
  then show ?case by simp
next
  case (Cons x s)
  show ?case
  proof (cases "x = c")
    case True
    then show ?thesis by simp
  next
    case False
    show ?thesis
    proof (cases "takeWhile (\<lambda>x. x \<noteq> c) s = []")
      case True
      with False Cons.IH show ?thesis
        by (simp add: match_here_two Let_def)
    next
      case nonempty: False
      then obtain y t where s: "s = y # t" and y: "y \<noteq> c"
        by (cases s) (auto split: if_splits)
      with False nonempty Cons.IH show ?thesis
        by (simp add: match_here_two Let_def)
    qed
  qed
qed

lemma length_lit [simp]: "length (lit s) = length s"
  by (simp add: lit_def)

lemma lit_close: "lit ''}}'' = [RBRACE, RBRACE]"
  by (simp add: lit_def RBRACE_def)

lemma lit_rbrace: "lit ''}'' = [RBRACE]"
  by (simp add: lit_def RBRACE_def)

lemma match_here_pattern:
  "match_here pattern s =
     (if take 10 s = lit ''initial={{'' then
        (let b = takeWhile (\<lambda>x. x \<noteq> RBRACE) (drop 10 s)
         in if b \<noteq> [] \<and> take 2 (drop (10 + length b) s) = lit ''}}''
            then Some (10 + length b + 2) else None)
      else None)"
proof -
  have len: "length (lit ''initial={{'') = 10"
    by simp
  have tail: "[OneOrMore (NotIn (lit ''}''))] @ map (\<lambda>c. One (Chr c)) (lit ''}}'')
              = [OneOrMore (NotIn [RBRACE]), One (Chr RBRACE), One (Chr RBRACE)]"
    by (simp add: lit_close lit_rbrace)
  have "match_here pattern s =
          (if take 10 s = lit ''initial={{''
           then map_option (\<lambda>n. 10 + n)
                  (match_here [OneOrMore (NotIn [RBRACE]), One (Chr RBRACE), One (Chr RBRACE)]
                     (drop 10 s))
           else None)"
    unfolding pattern_def tail
    using match_here_literals [of "lit ''initial={{''" _ s]
    by (simp only: len)
  then show ?thesis
    by (simp only: match_here_plus_close Let_def lit_close drop_drop add.commute [of _ 10]
                   add.assoc option.map if_distrib [of "map_option _"] cong: if_cong)
qed

lemma match_here_pattern_iff:
  "match_here pattern s = Some n \<longleftrightarrow>
     (\<exists>body rest. s = lit ''initial={{'' @ body @ lit ''}}'' @ rest \<and> body \<noteq> []
        \<and> RBRACE \<notin> set body \<and> n = 10 + length body + 2)"
proof
  assume m: "match_here pattern s = Some n"
  define b where "b = takeWhile (\<lambda>x. x \<noteq> RBRACE) (drop 10 s)"
  from m have pre: "take 10 s = lit ''initial={{''"
    by (simp add: match_here_pattern split: if_splits)
  from m pre have b: "b \<noteq> []" and cl: "take 2 (drop (10 + length b) s) = lit ''}}''"
    and n: "n = 10 + length b + 2"
    by (simp_all add: match_here_pattern Let_def b_def split: if_splits)
  have "drop 10 s = b @ dropWhile (\<lambda>x. x \<noteq> RBRACE) (drop 10 s)"
    by (simp add: b_def)
  then have "drop (length b) (drop 10 s) = dropWhile (\<lambda>x. x \<noteq> RBRACE) (drop 10 s)"
    by (metis append_eq_conv_conj)
  then have d: "dropWhile (\<lambda>x. x \<noteq> RBRACE) (drop 10 s) = drop (10 + length b) s"
    by (simp add: add.commute)
  have "s = take 10 s @ drop 10 s"
    by simp
  also have "drop 10 s = b @ drop (10 + length b) s"
    by (metis d b_def takeWhile_dropWhile_id)
  also have "drop (10 + length b) s = take 2 (drop (10 + length b) s) @ drop 2 (drop (10 + length b) s)"
    by (rule append_take_drop_id [symmetric])
  finally have "s = lit ''initial={{'' @ b @ lit ''}}'' @ drop 2 (drop (10 + length b) s)"
    by (simp only: pre cl)
  moreover have "RBRACE \<notin> set b"
    unfolding b_def by (auto dest: set_takeWhileD)
  ultimately show "\<exists>body rest. s = lit ''initial={{'' @ body @ lit ''}}'' @ rest \<and> body \<noteq> []
        \<and> RBRACE \<notin> set body \<and> n = 10 + length body + 2"
    using b n by blast
next
  assume "\<exists>body rest. s = lit ''initial={{'' @ body @ lit ''}}'' @ rest \<and> body \<noteq> []
        \<and> RBRACE \<notin> set body \<and> n = 10 + length body + 2"
  then obtain body rest where s: "s = lit ''initial={{'' @ body @ lit ''}}'' @ rest"
    and body: "body \<noteq> []" "RBRACE \<notin> set body" and n: "n = 10 + length body + 2"
    by blast
  have len: "length (lit ''initial={{'') = 10"
    by simp
  have pre: "take 10 s = lit ''initial={{''"
    unfolding s using len by simp
  have dr: "drop 10 s = body @ RBRACE # RBRACE # rest"
    unfolding s using len by (simp add: lit_close)
  have tw: "takeWhile (\<lambda>x. x \<noteq> RBRACE) (drop 10 s) = body"
    unfolding dr using body(2) by (auto simp: takeWhile_tail)
  have "drop (10 + length body) s = drop (length body) (drop 10 s)"
    by (simp add: add.commute)
  also have "\<dots> = RBRACE # RBRACE # rest"
    unfolding dr by simp
  finally have cl: "take 2 (drop (10 + length body) s) = lit ''}}''"
    by (simp add: lit_close)
  show "match_here pattern s = Some n"
    by (simp only: match_here_pattern pre tw Let_def cl body n if_True simp_thms)
qed

lemma find_close_body:
  "RBRACE \<notin> set body \<Longrightarrow> find_close (body @ RBRACE # RBRACE # rest) = Some (length body)"
proof (induction body)
  case Nil
  then show ?case by simp
next
  case (Cons x body)
  then have x: "x \<noteq> RBRACE" and IH: "find_close (body @ RBRACE # RBRACE # rest) = Some (length body)"
    by simp_all
  obtain y t where yt: "body @ RBRACE # RBRACE # rest = y # t"
    by (cases "body @ RBRACE # RBRACE # rest") simp_all
  have "find_close (x # y # t) = map_option Suc (find_close (y # t))"
    using x by simp
  with IH yt show ?case
    by simp
qed

lemma spec_match_here_shape:
  assumes "s = lit ''initial={{'' @ body @ lit ''}}'' @ rest" "RBRACE \<notin> set body"
  shows "spec_match_here s = Some (10 + length body + 2)"
proof -
  have len: "length (lit ''initial={{'') = 10"
    by simp
  have pre: "take 10 s = lit ''initial={{''"
    unfolding assms(1) using len by simp
  have dr: "drop 10 s = body @ RBRACE # RBRACE # rest"
    unfolding assms(1) using len by (simp add: lit_close)
  show ?thesis
    by (simp only: spec_match_here_def pre dr find_close_body [OF assms(2)] simp_thms if_True option.map)
qed

section \<open>The scan\<close>

lemma scan_from_member:
  "m \<in> set (scan_from f s pos) \<Longrightarrow>
     m_string m = s \<and> pos \<le> m_start m \<and> m_start m \<le> length s
     \<and> m_start m \<le> m_end m \<and> f (drop (m_start m) s) = Some (m_end m - m_start m)"
proof (induction f s pos rule: scan_from.induct)
  case (1 f s pos)
  show ?case
  proof (cases "length s < pos")
    case True
    with "1.prems" show ?thesis
      by (simp add: scan_from.simps [of f s pos])
  next
    case inside: False
    show ?thesis
    proof (cases "f (drop pos s)")
      case None
      with inside "1.prems" have "m \<in> set (scan_from f s (pos + 1))"
        by (simp add: scan_from.simps [of f s pos])
      with "1.IH"(1) [OF inside None] show ?thesis
        by simp
    next
      case (Some n)
      with inside "1.prems" have
        "m = \<lparr>m_string = s, m_start = pos, m_end = pos + n\<rparr>
         \<or> m \<in> set (scan_from f s (if n = 0 then pos + 1 else pos + n))"
        by (simp add: scan_from.simps [of f s pos])
      then show ?thesis
      proof
        assume "m = \<lparr>m_string = s, m_start = pos, m_end = pos + n\<rparr>"
        with inside Some show ?thesis by simp
      next
        assume "m \<in> set (scan_from f s (if n = 0 then pos + 1 else pos + n))"
        with "1.IH"(2) [OF inside Some] show ?thesis
          by (auto split: if_splits)
      qed
    qed
  qed
qed

lemma scan_from_sorted:
  "sorted_wrt (\<lambda>a b. m_start a < m_start b \<and> m_end a \<le> m_start b) (scan_from f s pos)"
proof (induction f s pos rule: scan_from.induct)
  case (1 f s pos)
  show ?case
  proof (cases "length s < pos")
    case True
    then show ?thesis
      by (simp add: scan_from.simps [of f s pos])
  next
    case inside: False
    show ?thesis
    proof (cases "f (drop pos s)")
      case None
      with inside "1.IH"(1) show ?thesis
        by (simp add: scan_from.simps [of f s pos])
    next
      case (Some n)
      let ?next = "if n = 0 then pos + 1 else pos + n"
      have "pos < m_start m \<and> pos + n \<le> m_start m"
        if "m \<in> set (scan_from f s ?next)" for m
        using scan_from_member [OF that] by (cases "n = 0") simp_all
      then have "\<forall>m \<in> set (scan_from f s ?next). pos < m_start m \<and> pos + n \<le> m_start m"
        by blast
      with inside Some "1.IH"(2) [OF inside Some] show ?thesis
        by (simp add: scan_from.simps [of f s pos])
    qed
  qed
qed

lemma scan_from_complete:
  "pos \<le> i \<Longrightarrow> i \<le> length s \<Longrightarrow> f (drop i s) = Some n \<Longrightarrow> 0 < n \<Longrightarrow>
     \<exists>m \<in> set (scan_from f s pos). m_start m \<le> i \<and> i < m_end m"
proof (induction f s pos rule: scan_from.induct)
  case (1 f s pos)
  from "1.prems" have inside: "\<not> length s < pos"
    by simp
  show ?case
  proof (cases "f (drop pos s)")
    case None
    with "1.prems" have "pos + 1 \<le> i"
      by (cases "pos = i") auto
    from "1.IH"(1) [OF inside None this "1.prems"(2,3,4)] inside None show ?thesis
      by (simp add: scan_from.simps [of f s pos])
  next
    case (Some k)
    let ?next = "if k = 0 then pos + 1 else pos + k"
    have unfold: "scan_from f s pos =
        \<lparr>m_string = s, m_start = pos, m_end = pos + k\<rparr> # scan_from f s ?next"
      using inside Some by (simp add: scan_from.simps [of f s pos])
    show ?thesis
    proof (cases "i < pos + k")
      case True
      with "1.prems"(1) show ?thesis
        unfolding unfold by simp
    next
      case False
      with "1.prems" Some have "?next \<le> i"
        by (cases "pos = i") auto
      from "1.IH"(2) [OF inside Some this "1.prems"(2,3,4)] show ?thesis
        unfolding unfold by auto
    qed
  qed
qed

lemma finditer_shape:
  assumes "m \<in> set (finditer pattern content)"
  obtains body rest where
    "m_string m = content"
    "drop (m_start m) content = lit ''initial={{'' @ body @ lit ''}}'' @ rest"
    "body \<noteq> []" "RBRACE \<notin> set body"
    "m_end m = m_start m + (10 + length body + 2)"
    "group0 m = lit ''initial={{'' @ body @ lit ''}}''"
proof -
  from assms have mem: "m_string m = content" "m_start m \<le> m_end m"
    "match_here pattern (drop (m_start m) content) = Some (m_end m - m_start m)"
    using scan_from_member [of m "match_here pattern" content 0]
    by (simp_all add: finditer_def)
  from mem(3) obtain body rest where
    d: "drop (m_start m) content = lit ''initial={{'' @ body @ lit ''}}'' @ rest"
    and body: "body \<noteq> []" "RBRACE \<notin> set body"
    and n: "m_end m - m_start m = 10 + length body + 2"
    unfolding match_here_pattern_iff by blast
  from n mem(2) have e: "m_end m = m_start m + (10 + length body + 2)"
    by simp
  have "group0 m = take (10 + length body + 2) (drop (m_start m) content)"
    by (simp only: group0_def mem(1) n)
  also have "\<dots> = lit ''initial={{'' @ body @ lit ''}}''"
    unfolding d by simp
  finally show thesis
    using that mem(1) d body e by blast
qed

lemma count_list_take:
  "k \<le> length xs \<Longrightarrow> count_list (take k xs) c = length [i \<leftarrow> [0..<k]. xs ! i = c]"
proof (induction k)
  case 0
  then show ?case by simp
next
  case (Suc k)
  then have "take (Suc k) xs = take k xs @ [xs ! k]"
    by (simp add: take_Suc_conv_app_nth)
  with Suc show ?case
    by simp
qed

section \<open>The loops and the report\<close>

lemma match_loop_eq:
  "match_loop name content ms results
     = results @ map (\<lambda>m. result_line name (line_num content m) (snippet m)) ms"
  by (induction ms arbitrary: results) simp_all

lemma file_loop_readable:
  "file_loop (map (\<lambda>(name, content). (name, Inr content)) texts) results
     = Inr (results @ concat (map (\<lambda>(name, content).
              map (\<lambda>m. result_line name (line_num content m) (snippet m))
                (finditer pattern content)) texts))"
  by (induction texts arbitrary: results) (auto simp: match_loop_eq)

lemma file_loop_unreadable:
  "(name, Inl e) \<in> set fs \<Longrightarrow> \<exists>e'. file_loop fs results = Inl e'"
proof (induction fs arbitrary: results)
  case Nil
  then show ?case by simp
next
  case (Cons f fs)
  obtain n rd where f: "f = (n, rd)"
    by (cases f)
  show ?case
  proof (cases rd)
    case (Inl e')
    with f show ?thesis by simp
  next
    case (Inr content)
    with f Cons.prems have "(name, Inl e) \<in> set fs"
      by auto
    from Cons.IH [OF this] f Inr show ?thesis
      by simp
  qed
qed

lemma file_loop_no_matches:
  "\<forall>e \<in> set fs. \<exists>content. snd e = Inr content \<and> finditer pattern content = [] \<Longrightarrow>
     file_loop fs results = Inr results"
proof (induction fs arbitrary: results)
  case Nil
  then show ?case by simp
next
  case (Cons f fs)
  then obtain name content where "f = (name, Inr content)" "finditer pattern content = []"
    by (cases f) auto
  with Cons show ?case
    by simp
qed

lemma print_all_eq:
  "print_all rs w = w\<lparr>stdout := stdout w @ concat (map (\<lambda>r. r @ [NL]) rs)\<rparr>"
  by (induction rs arbitrary: w) (simp_all add: print_def)

lemma report_eq:
  "report results w =
     w\<lparr>stdout := stdout w @
        (if results \<noteq> [] then
           lit ''Found '' @ str_of_nat (length results)
             @ lit '' remaining initial={} patterns:'' @ [NL, NL]
             @ concat (map (\<lambda>r. r @ [NL]) results)
         else lit ''No remaining initial={{}} patterns found!'' @ [NL])\<rparr>"
  by (simp add: report_def print_all_eq print_def)

lemma main_eq:
  "main w =
     (case file_loop (glob_tsx (files w)) [] of
        Inl e \<Rightarrow> (Uncaught e, w)
      | Inr results \<Rightarrow>
          (Normal,
           w\<lparr>stdout := stdout w @
              (if results \<noteq> [] then
                 lit ''Found '' @ str_of_nat (length results)
                   @ lit '' remaining initial={} patterns:'' @ [NL, NL]
                   @ concat (map (\<lambda>r. r @ [NL]) results)
               else lit ''No remaining initial={{}} patterns found!'' @ [NL])\<rparr>))"
  by (simp add: main_def report_eq split: sum.splits)

section \<open>What the pattern matches\<close>

text \<open>
  Claim C1, which fails as stated: the specification's matcher takes any characters up
  to the first \<^verbatim>\<open>}}\<close>, the pattern's \<^verbatim>\<open>[^}]+\<close> takes one or more characters none
  of which is \<^verbatim>\<open>}\<close>. On a body holding a single \<^verbatim>\<open>}\<close>, as a nested object
  literal does, the specification's matcher reports a match and the script reports none.
\<close>

theorem shortest_span_counterexample:
  "spec_finditer (lit ''<p initial={{ a: {b: 1} }} />'')
     = [\<lparr>m_string = lit ''<p initial={{ a: {b: 1} }} />'', m_start = 3, m_end = 26\<rparr>]
   \<and> finditer pattern (lit ''<p initial={{ a: {b: 1} }} />'') = []"
  by code_simp

text \<open>
  Claim C1 as amended. Every reported match lies inside the text and is
  \<^verbatim>\<open>initial={{\<close>, a body that is not empty and holds no \<^verbatim>\<open>}\<close>, and \<^verbatim>\<open>}}\<close>; it is
  the span from its start to the nearest following \<^verbatim>\<open>}}\<close>, the one the
  specification's matcher gives at that offset. The reported matches do not overlap
  and come in the order of the text. Every occurrence of \<^verbatim>\<open>initial={{\<close>, one or more
  characters other than \<^verbatim>\<open>}\<close> (line feeds included) and \<^verbatim>\<open>}}\<close> is reported or starts
  inside a reported match.
\<close>

theorem finditer_pattern_characterised:
  "(\<forall>m \<in> set (finditer pattern content).
      m_string m = content \<and> m_end m \<le> length content
      \<and> (\<exists>body. group0 m = lit ''initial={{'' @ body @ lit ''}}''
            \<and> body \<noteq> [] \<and> RBRACE \<notin> set body)
      \<and> spec_match_here (drop (m_start m) content) = Some (m_end m - m_start m))
   \<and> sorted_wrt (\<lambda>a b. m_end a \<le> m_start b) (finditer pattern content)
   \<and> (\<forall>i body rest.
        drop i content = lit ''initial={{'' @ body @ lit ''}}'' @ rest
          \<and> body \<noteq> [] \<and> RBRACE \<notin> set body \<longrightarrow>
        (\<exists>m \<in> set (finditer pattern content). m_start m \<le> i \<and> i < m_end m))"
proof (intro conjI ballI allI impI)
  fix m assume m: "m \<in> set (finditer pattern content)"
  then obtain body rest where
    s: "m_string m = content"
    and d: "drop (m_start m) content = lit ''initial={{'' @ body @ lit ''}}'' @ rest"
    and body: "body \<noteq> []" "RBRACE \<notin> set body"
    and e: "m_end m = m_start m + (10 + length body + 2)"
    and g: "group0 m = lit ''initial={{'' @ body @ lit ''}}''"
    by (rule finditer_shape)
  show "m_string m = content"
    by (rule s)
  have "length (drop (m_start m) content) = 10 + length body + 2 + length rest"
    unfolding d by simp
  then show "m_end m \<le> length content"
    using e by simp
  show "\<exists>body. group0 m = lit ''initial={{'' @ body @ lit ''}}''
            \<and> body \<noteq> [] \<and> RBRACE \<notin> set body"
    using g body by blast
  show "spec_match_here (drop (m_start m) content) = Some (m_end m - m_start m)"
    using spec_match_here_shape [OF d body(2)] e by simp
next
  have "sorted_wrt (\<lambda>a b. m_start a < m_start b \<and> m_end a \<le> m_start b)
          (scan_from (match_here pattern) content 0)"
    by (rule scan_from_sorted)
  then show "sorted_wrt (\<lambda>a b. m_end a \<le> m_start b) (finditer pattern content)"
    unfolding finditer_def by (rule sorted_wrt_mono_rel [rotated]) simp
next
  fix i body rest
  assume a: "drop i content = lit ''initial={{'' @ body @ lit ''}}'' @ rest
          \<and> body \<noteq> [] \<and> RBRACE \<notin> set body"
  then have "drop i content \<noteq> []"
    by (simp add: lit_def)
  then have i: "i \<le> length content"
    by simp
  from a have "match_here pattern (drop i content) = Some (10 + length body + 2)"
    unfolding match_here_pattern_iff by blast
  from scan_from_complete [of 0 i content "match_here pattern" "10 + length body + 2"] i this
  show "\<exists>m \<in> set (finditer pattern content). m_start m \<le> i \<and> i < m_end m"
    by (simp add: finditer_def)
qed

theorem finditer_pattern_characterised_witness:
  "finditer pattern (lit ''ab initial={{a}} initial={{}} initial={{x}y}} initial={{q}}}'')
     = [\<lparr>m_string = lit ''ab initial={{a}} initial={{}} initial={{x}y}} initial={{q}}}'',
          m_start = 3, m_end = 16\<rparr>,
        \<lparr>m_string = lit ''ab initial={{a}} initial={{}} initial={{x}y}} initial={{q}}}'',
          m_start = 46, m_end = 59\<rparr>]
   \<and> spec_match_here (drop 46 (lit ''ab initial={{a}} initial={{}} initial={{x}y}} initial={{q}}}''))
       = Some 13
   \<and> (\<exists>body. group0 \<lparr>m_string = lit ''ab initial={{a}} initial={{}} initial={{x}y}} initial={{q}}}'',
                       m_start = 46, m_end = 59\<rparr>
                = lit ''initial={{'' @ body @ lit ''}}'' \<and> body \<noteq> [] \<and> RBRACE \<notin> set body)"
proof -
  let ?c = "lit ''ab initial={{a}} initial={{}} initial={{x}y}} initial={{q}}}''"
  let ?m1 = "\<lparr>m_string = ?c, m_start = 3, m_end = 16\<rparr>"
  let ?m2 = "\<lparr>m_string = ?c, m_start = 46, m_end = 59\<rparr>"
  have ev: "finditer pattern ?c = [?m1, ?m2]"
    by code_simp
  then have mem: "?m2 \<in> set (finditer pattern ?c)"
    by simp
  from finditer_pattern_characterised [of ?c, THEN conjunct1, rule_format, OF mem] ev
  show ?thesis
    by simp
qed

text \<open>
  Claim C9. An occurrence of the pattern with an empty body, the text
  \<^verbatim>\<open>initial={{}}\<close>, is never reported: the anchored matcher fails on it whatever
  follows, no reported match starts at such an occurrence, and the body of every
  reported match, between \<^verbatim>\<open>initial={{\<close> and the closing braces, is not empty and
  holds a character that is not \<^verbatim>\<open>}\<close>.
\<close>

theorem empty_body_never_matched:
  "match_here pattern (lit ''initial={{}}'' @ rest) = None
   \<and> (\<forall>m \<in> set (finditer pattern content).
         take 12 (drop (m_start m) content) \<noteq> lit ''initial={{}}''
         \<and> (\<exists>body. group0 m = lit ''initial={{'' @ body @ lit ''}}''
               \<and> body \<noteq> [] \<and> (\<exists>x \<in> set body. x \<noteq> RBRACE)))"
proof (intro conjI ballI)
  have "take 10 (lit ''initial={{}}'' @ rest) = lit ''initial={{''"
    by (simp add: lit_def)
  moreover have "takeWhile (\<lambda>x. x \<noteq> RBRACE) (drop 10 (lit ''initial={{}}'' @ rest)) = []"
    by (simp add: lit_def RBRACE_def)
  ultimately show "match_here pattern (lit ''initial={{}}'' @ rest) = None"
    by (simp only: match_here_pattern Let_def simp_thms if_True if_False)
next
  fix m assume m: "m \<in> set (finditer pattern content)"
  then obtain body rest where
    d: "drop (m_start m) content = lit ''initial={{'' @ body @ lit ''}}'' @ rest"
    and body: "body \<noteq> []" "RBRACE \<notin> set body"
    and g: "group0 m = lit ''initial={{'' @ body @ lit ''}}''"
    by (rule finditer_shape)
  from body obtain x t where bx: "body = x # t" "x \<noteq> RBRACE"
    by (cases body) auto
  have "take 12 (drop (m_start m) content) ! 10 = x"
    unfolding d bx by (simp add: lit_def nth_append)
  moreover have "lit ''initial={{}}'' ! 10 = RBRACE"
    by (simp add: lit_def RBRACE_def)
  ultimately show "take 12 (drop (m_start m) content) \<noteq> lit ''initial={{}}''"
    using bx(2) by metis
  from g body bx show "\<exists>body. group0 m = lit ''initial={{'' @ body @ lit ''}}''
               \<and> body \<noteq> [] \<and> (\<exists>x \<in> set body. x \<noteq> RBRACE)"
    by auto
qed

theorem empty_body_never_matched_witness:
  "finditer pattern (lit ''initial={{}} initial={{a}}'')
     = [\<lparr>m_string = lit ''initial={{}} initial={{a}}'', m_start = 13, m_end = 26\<rparr>]
   \<and> take 12 (drop 13 (lit ''initial={{}} initial={{a}}'')) \<noteq> lit ''initial={{}}''
   \<and> (\<exists>body. group0 \<lparr>m_string = lit ''initial={{}} initial={{a}}'', m_start = 13, m_end = 26\<rparr>
                 = lit ''initial={{'' @ body @ lit ''}}''
               \<and> body \<noteq> [] \<and> (\<exists>x \<in> set body. x \<noteq> RBRACE))"
proof -
  let ?c = "lit ''initial={{}} initial={{a}}''"
  let ?m = "\<lparr>m_string = ?c, m_start = 13, m_end = 26\<rparr>"
  have ev: "finditer pattern ?c = [?m]"
    by code_simp
  then have mem: "?m \<in> set (finditer pattern ?c)"
    by simp
  from empty_body_never_matched [of "[]" ?c, THEN conjunct2, rule_format, OF mem] ev
  show ?thesis
    by simp
qed

section \<open>Line numbers and snippets\<close>

text \<open>
  Claim C3. For every match the scanner finds in a file's text, the line number put
  into the record is at least 1 and is the number of line feeds strictly before the
  start offset of the match, plus one. The text \<^verbatim>\<open>initial={{\<close> stands at that offset
  and holds no line feed, so for a match whose body runs over several lines the line
  reported is the one holding \<^verbatim>\<open>initial={{\<close>. The last conjunct is the loop body: the
  record appended for the match carries that line number.
\<close>

theorem line_number_of_match:
  "m \<in> set (finditer pattern content) \<Longrightarrow>
     1 \<le> line_num content m
     \<and> line_num content m = length [i \<leftarrow> [0..<m_start m]. content ! i = NL] + 1
     \<and> take 10 (drop (m_start m) content) = lit ''initial={{''
     \<and> NL \<notin> set (lit ''initial={{'')
     \<and> match_loop name content [m] results
         = results @ [name @ lit '':'' @ str_of_nat (line_num content m) @ lit '': '' @ snippet m]"
proof -
  assume m: "m \<in> set (finditer pattern content)"
  then have "m_start m \<le> length content"
    using scan_from_member [of m "match_here pattern" content 0]
    by (simp add: finditer_def)
  then have "line_num content m = length [i \<leftarrow> [0..<m_start m]. content ! i = NL] + 1"
    by (simp add: line_num_def count_list_take)
  moreover from m obtain body rest where
    "drop (m_start m) content = lit ''initial={{'' @ body @ lit ''}}'' @ rest"
    by (rule finditer_shape)
  then have "take 10 (drop (m_start m) content) = lit ''initial={{''"
    by simp
  moreover have "NL \<notin> set (lit ''initial={{'')"
    by (simp add: lit_def NL_def)
  ultimately show ?thesis
    by (simp add: result_line_def)
qed

theorem line_number_of_match_witness:
  "finditer pattern (lit ''<a'' @ [NL] @ lit '' initial={{'' @ [NL] @ lit ''x: 1,'' @ [NL] @ lit ''}}>'')
     = [\<lparr>m_string = lit ''<a'' @ [NL] @ lit '' initial={{'' @ [NL] @ lit ''x: 1,'' @ [NL] @ lit ''}}>'',
         m_start = 4, m_end = 23\<rparr>]
   \<and> line_num (lit ''<a'' @ [NL] @ lit '' initial={{'' @ [NL] @ lit ''x: 1,'' @ [NL] @ lit ''}}>'')
        \<lparr>m_string = lit ''<a'' @ [NL] @ lit '' initial={{'' @ [NL] @ lit ''x: 1,'' @ [NL] @ lit ''}}>'',
         m_start = 4, m_end = 23\<rparr> = 2
   \<and> match_loop (lit ''a.tsx'') (lit ''<a'' @ [NL] @ lit '' initial={{'' @ [NL] @ lit ''x: 1,'' @ [NL] @ lit ''}}>'')
        [\<lparr>m_string = lit ''<a'' @ [NL] @ lit '' initial={{'' @ [NL] @ lit ''x: 1,'' @ [NL] @ lit ''}}>'',
         m_start = 4, m_end = 23\<rparr>] []
       = [lit ''a.tsx:2: initial={{'' @ [NL] @ lit ''x: 1,'' @ [NL] @ lit ''}}'']"
proof -
  let ?c = "lit ''<a'' @ [NL] @ lit '' initial={{'' @ [NL] @ lit ''x: 1,'' @ [NL] @ lit ''}}>''"
  let ?m = "\<lparr>m_string = ?c, m_start = 4, m_end = 23\<rparr>"
  have ev: "finditer pattern ?c = [?m]"
    by code_simp
  then have mem: "?m \<in> set (finditer pattern ?c)"
    by simp
  have two: "length [i \<leftarrow> [0..<m_start ?m]. ?c ! i = NL] + 1 = 2"
    by code_simp
  have sn: "snippet ?m = lit ''initial={{'' @ [NL] @ lit ''x: 1,'' @ [NL] @ lit ''}}''"
    by code_simp
  have s2: "str_of_nat 2 = lit ''2''"
    by code_simp
  from line_number_of_match [OF mem, of "lit ''a.tsx''" "[]"] ev show ?thesis
    by (simp only: two sn s2) (simp add: lit_def)
qed

text \<open>
  Claim C5. The snippet of a match is the first 80 characters of the matched text: a
  matched text of more than 80 characters is cut to exactly 80, one of at most 80 is
  kept whole, and the record appended by the loop ends with the snippet, with no
  marker after it.
\<close>

theorem snippet_is_first_80:
  "snippet m = take 80 (group0 m)
   \<and> (if 80 < length (group0 m)
       then length (snippet m) = 80 \<and> snippet m @ drop 80 (group0 m) = group0 m
       else snippet m = group0 m)
   \<and> match_loop name content [m] results
       = results @ [name @ lit '':'' @ str_of_nat (line_num content m) @ lit '': ''
                    @ take 80 (group0 m)]"
  by (simp add: snippet_def result_line_def)

theorem snippet_is_first_80_witness:
  "length (group0 \<lparr>m_string = lit ''<motion.div initial={{ opacity: 0, scale: 0.95, x: -100, y: 20, rotate: -5, skewX: 3, skewY: 4, z: 1 }} />'', m_start = 12, m_end = 103\<rparr>) = 91
   \<and> snippet \<lparr>m_string = lit ''<motion.div initial={{ opacity: 0, scale: 0.95, x: -100, y: 20, rotate: -5, skewX: 3, skewY: 4, z: 1 }} />'', m_start = 12, m_end = 103\<rparr>
       = lit ''initial={{ opacity: 0, scale: 0.95, x: -100, y: 20, rotate: -5, skewX: 3, skewY:''
   \<and> length (snippet \<lparr>m_string = lit ''<motion.div initial={{ opacity: 0, scale: 0.95, x: -100, y: 20, rotate: -5, skewX: 3, skewY: 4, z: 1 }} />'', m_start = 12, m_end = 103\<rparr>) = 80"
proof -
  let ?m = "\<lparr>m_string = lit ''<motion.div initial={{ opacity: 0, scale: 0.95, x: -100, y: 20, rotate: -5, skewX: 3, skewY: 4, z: 1 }} />'', m_start = 12, m_end = 103\<rparr>"
  have g: "group0 ?m = lit ''initial={{ opacity: 0, scale: 0.95, x: -100, y: 20, rotate: -5, skewX: 3, skewY: 4, z: 1 }}''"
    by code_simp
  have t: "take 80 (lit ''initial={{ opacity: 0, scale: 0.95, x: -100, y: 20, rotate: -5, skewX: 3, skewY: 4, z: 1 }}'')
           = lit ''initial={{ opacity: 0, scale: 0.95, x: -100, y: 20, rotate: -5, skewX: 3, skewY:''"
    by code_simp
  from snippet_is_first_80 [of ?m "[]" "[]" "[]"] show ?thesis
    by (simp only: g t length_lit) simp
qed

text \<open>
  Claim C10. Every reported snippet begins with \<^verbatim>\<open>initial={{\<close> and is between 13 and
  80 characters long; the matched text itself is at least 13 characters long.
\<close>

theorem snippet_prefix_and_length:
  "m \<in> set (finditer pattern content) \<Longrightarrow>
     take 10 (snippet m) = lit ''initial={{''
     \<and> 13 \<le> length (snippet m) \<and> length (snippet m) \<le> 80
     \<and> 13 \<le> length (group0 m)"
proof -
  assume "m \<in> set (finditer pattern content)"
  then obtain body where g: "group0 m = lit ''initial={{'' @ body @ lit ''}}''"
    and body: "body \<noteq> []"
    by (rule finditer_shape)
  from body have "1 \<le> length body"
    by (cases body) simp_all
  moreover have "length (group0 m) = 12 + length body"
    by (simp add: g)
  moreover have "length (snippet m) = min (length (group0 m)) 80"
    by (simp add: snippet_def)
  moreover have "take 10 (snippet m) = lit ''initial={{''"
    by (simp add: snippet_def g)
  ultimately show ?thesis
    by simp
qed

theorem snippet_prefix_and_length_witness:
  "finditer pattern (lit ''<b initial={{ opacity: 0 }}>'')
     = [\<lparr>m_string = lit ''<b initial={{ opacity: 0 }}>'', m_start = 3, m_end = 27\<rparr>]
   \<and> snippet \<lparr>m_string = lit ''<b initial={{ opacity: 0 }}>'', m_start = 3, m_end = 27\<rparr>
       = lit ''initial={{ opacity: 0 }}''
   \<and> 13 \<le> length (snippet \<lparr>m_string = lit ''<b initial={{ opacity: 0 }}>'', m_start = 3, m_end = 27\<rparr>)"
proof -
  let ?c = "lit ''<b initial={{ opacity: 0 }}>''"
  let ?m = "\<lparr>m_string = ?c, m_start = 3, m_end = 27\<rparr>"
  have ev: "finditer pattern ?c = [?m]"
    by code_simp
  then have mem: "?m \<in> set (finditer pattern ?c)"
    by simp
  have sn: "snippet ?m = lit ''initial={{ opacity: 0 }}''"
    by code_simp
  from snippet_prefix_and_length [OF mem] ev sn show ?thesis
    by simp
qed

section \<open>The report\<close>

text \<open>
  Claim C2, evaluated on a directory with one file holding one match. The header the
  script prints reads \<^verbatim>\<open>initial={}\<close>, with single braces, because the message is an
  f-string; the claim, like the message of the other branch, has \<^verbatim>\<open>initial={{}}\<close>.
  The blank line and the record line are as the claim says.
\<close>

theorem header_prints_single_braces:
  "stdout (snd (main
      \<lparr>files = [(lit ''Card.tsx'', Inr (lit ''<li initial={{ x: 1 }}/>''))], stdout = []\<rparr>))
     = lit ''Found 1 remaining initial={} patterns:'' @ [NL, NL]
       @ lit ''Card.tsx:1: initial={{ x: 1 }}'' @ [NL]
   \<and> stdout (snd (main
      \<lparr>files = [(lit ''Card.tsx'', Inr (lit ''<li initial={{ x: 1 }}/>''))], stdout = []\<rparr>))
     \<noteq> lit ''Found 1 remaining initial={{}} patterns:'' @ [NL, NL]
       @ lit ''Card.tsx:1: initial={{ x: 1 }}'' @ [NL]"
  by code_simp

text \<open>
  Claim C4. When the match list is empty the program prints exactly
  \<^verbatim>\<open>No remaining initial={{}} patterns found!\<close> (and the line feed of \<open>print\<close>), nothing
  else, and ends normally. The match list is empty whenever every file the glob gives
  is readable and holds no match, which covers a directory with no \<open>.tsx\<close> file at
  all.
\<close>

theorem empty_report:
  "(file_loop (glob_tsx (files w)) [] = Inr [] \<longrightarrow>
      main w = (Normal,
                w\<lparr>stdout := stdout w @ lit ''No remaining initial={{}} patterns found!'' @ [NL]\<rparr>))
   \<and> ((\<forall>e \<in> set (glob_tsx (files w)).
          \<exists>content. snd e = Inr content \<and> finditer pattern content = []) \<longrightarrow>
        file_loop (glob_tsx (files w)) [] = Inr [])"
proof (intro conjI impI)
  assume "file_loop (glob_tsx (files w)) [] = Inr []"
  then show "main w = (Normal,
                w\<lparr>stdout := stdout w @ lit ''No remaining initial={{}} patterns found!'' @ [NL]\<rparr>)"
    by (simp add: main_def report_eq)
next
  assume "\<forall>e \<in> set (glob_tsx (files w)).
          \<exists>content. snd e = Inr content \<and> finditer pattern content = []"
  then show "file_loop (glob_tsx (files w)) [] = Inr []"
    by (rule file_loop_no_matches)
qed

theorem empty_report_witness:
  "main \<lparr>files = [(lit ''App.tsx'', Inr (lit ''<div initial={{}} />'')),
                    (lit ''notes.md'', Inl OSError)], stdout = []\<rparr>
     = (Normal,
        \<lparr>files = [(lit ''App.tsx'', Inr (lit ''<div initial={{}} />'')),
                   (lit ''notes.md'', Inl OSError)],
         stdout = lit ''No remaining initial={{}} patterns found!'' @ [NL]\<rparr>)"
proof -
  let ?w = "\<lparr>files = [(lit ''App.tsx'', Inr (lit ''<div initial={{}} />'')),
                    (lit ''notes.md'', Inl OSError)], stdout = []\<rparr>"
  have g: "glob_tsx (files ?w) = [(lit ''App.tsx'', Inr (lit ''<div initial={{}} />''))]"
    by code_simp
  have none: "finditer pattern (lit ''<div initial={{}} />'') = []"
    by code_simp
  have "\<forall>e \<in> set (glob_tsx (files ?w)).
          \<exists>content. snd e = Inr content \<and> finditer pattern content = []"
    unfolding g using none by simp
  with empty_report [of ?w] have "file_loop (glob_tsx (files ?w)) [] = Inr []"
    by blast
  with empty_report [of ?w] show ?thesis
    by simp
qed

text \<open>
  Claim C6. When every file the glob gives is readable, \<open>texts\<close> being their names
  and texts in the order of the directory listing, the match list is the records of
  the first file, then those of the second, and so on; the records of one file follow
  its matches, whose start offsets are strictly ascending; and the report prints the
  records in the order of the list, one per line, after the header.
\<close>

theorem report_order:
  assumes "glob_tsx (files w) = map (\<lambda>(name, content). (name, Inr content)) texts"
      and "results = concat (map (\<lambda>(name, content).
                        map (\<lambda>m. result_line name (line_num content m) (snippet m))
                          (finditer pattern content)) texts)"
  shows "map fst texts = filter fnmatch_tsx (map fst (files w))
     \<and> file_loop (glob_tsx (files w)) [] = Inr results
     \<and> sorted_wrt (\<lambda>a b. m_start a < m_start b) (finditer pattern content)
     \<and> stdout (snd (main w)) =
         stdout w @
           (if results \<noteq> [] then
              lit ''Found '' @ str_of_nat (length results)
                @ lit '' remaining initial={} patterns:'' @ [NL, NL]
                @ concat (map (\<lambda>r. r @ [NL]) results)
            else lit ''No remaining initial={{}} patterns found!'' @ [NL])"
proof (intro conjI)
  have "map fst (glob_tsx (files w)) = map fst texts"
    unfolding assms(1) by (simp add: comp_def case_prod_unfold)
  then show "map fst texts = filter fnmatch_tsx (map fst (files w))"
    by (simp add: glob_tsx_def filter_map comp_def)
  show fl: "file_loop (glob_tsx (files w)) [] = Inr results"
    unfolding assms using file_loop_readable [of texts "[]"] by simp
  have "sorted_wrt (\<lambda>a b. m_start a < m_start b \<and> m_end a \<le> m_start b)
          (scan_from (match_here pattern) content 0)"
    by (rule scan_from_sorted)
  then show "sorted_wrt (\<lambda>a b. m_start a < m_start b) (finditer pattern content)"
    unfolding finditer_def by (rule sorted_wrt_mono_rel [rotated]) simp
  show "stdout (snd (main w)) =
         stdout w @
           (if results \<noteq> [] then
              lit ''Found '' @ str_of_nat (length results)
                @ lit '' remaining initial={} patterns:'' @ [NL, NL]
                @ concat (map (\<lambda>r. r @ [NL]) results)
            else lit ''No remaining initial={{}} patterns found!'' @ [NL])"
    by (simp only: main_eq fl sum.case snd_conv) simp
qed

theorem report_order_witness:
  "stdout (snd (main
      \<lparr>files = [(lit ''Modal.tsx'',
                  Inr (lit ''<div'' @ [NL] @ lit '' initial={{ y: 8 }}>'' @ [NL]
                       @ lit ''</div>'' @ [NL] @ lit ''<p initial={{ x: 1 }}/>'')),
                 (lit ''README.md'', Inr (lit ''initial={{ z }}'')),
                 (lit ''App.tsx'', Inr (lit ''<a initial={{ o: 0 }}/>''))],
       stdout = []\<rparr>))
   = lit ''Found 3 remaining initial={} patterns:'' @ [NL, NL]
     @ lit ''Modal.tsx:2: initial={{ y: 8 }}'' @ [NL]
     @ lit ''Modal.tsx:4: initial={{ x: 1 }}'' @ [NL]
     @ lit ''App.tsx:1: initial={{ o: 0 }}'' @ [NL]"
proof -
  let ?modal = "lit ''<div'' @ [NL] @ lit '' initial={{ y: 8 }}>'' @ [NL]
                @ lit ''</div>'' @ [NL] @ lit ''<p initial={{ x: 1 }}/>''"
  let ?w = "\<lparr>files = [(lit ''Modal.tsx'', Inr ?modal),
                    (lit ''README.md'', Inr (lit ''initial={{ z }}'')),
                    (lit ''App.tsx'', Inr (lit ''<a initial={{ o: 0 }}/>''))],
            stdout = []\<rparr>"
  let ?texts = "[(lit ''Modal.tsx'', ?modal), (lit ''App.tsx'', lit ''<a initial={{ o: 0 }}/>'')]"
  let ?results = "[lit ''Modal.tsx:2: initial={{ y: 8 }}'', lit ''Modal.tsx:4: initial={{ x: 1 }}'',
                   lit ''App.tsx:1: initial={{ o: 0 }}'']"
  have g: "glob_tsx (files ?w) = map (\<lambda>(name, content). (name, Inr content)) ?texts"
    by code_simp
  have r: "?results = concat (map (\<lambda>(name, content).
                        map (\<lambda>m. result_line name (line_num content m) (snippet m))
                          (finditer pattern content)) ?texts)"
    by code_simp
  have three: "str_of_nat (length ?results) = lit ''3''"
    by code_simp
  from report_order [OF g r] have
    "stdout (snd (main ?w)) =
         stdout ?w @
           (if ?results \<noteq> [] then
              lit ''Found '' @ str_of_nat (length ?results)
                @ lit '' remaining initial={} patterns:'' @ [NL, NL]
                @ concat (map (\<lambda>r. r @ [NL]) ?results)
            else lit ''No remaining initial={{}} patterns found!'' @ [NL])"
    by blast
  then show ?thesis
    by (simp only: three) (simp add: lit_def)
qed

section \<open>Errors and repeated runs\<close>

text \<open>
  Claim C7. If a file the glob gives cannot be opened or decoded, the run ends with an
  uncaught exception: the exit status is not 0, standard output is what it was before
  the run (no report, not even for the files read before), and nothing else changed.
\<close>

theorem unreadable_file_aborts:
  "(name, Inl e) \<in> set (glob_tsx (files w)) \<Longrightarrow>
     (\<exists>e'. main w = (Uncaught e', w))
     \<and> exit_status (fst (main w)) \<noteq> 0
     \<and> stdout (snd (main w)) = stdout w"
proof -
  assume "(name, Inl e) \<in> set (glob_tsx (files w))"
  then obtain e' where "file_loop (glob_tsx (files w)) [] = Inl e'"
    using file_loop_unreadable by blast
  then have "main w = (Uncaught e', w)"
    by (simp add: main_def)
  then show ?thesis
    by simp
qed

theorem unreadable_file_aborts_witness:
  "main \<lparr>files = [(lit ''A.tsx'', Inr (lit ''<div initial={{ x: 1 }} />'')),
                    (lit ''B.tsx'', Inl UnicodeDecodeError),
                    (lit ''C.tsx'', Inr (lit ''<p initial={{ y: 2 }} />''))], stdout = []\<rparr>
     = (Uncaught UnicodeDecodeError,
        \<lparr>files = [(lit ''A.tsx'', Inr (lit ''<div initial={{ x: 1 }} />'')),
                    (lit ''B.tsx'', Inl UnicodeDecodeError),
                    (lit ''C.tsx'', Inr (lit ''<p initial={{ y: 2 }} />''))], stdout = []\<rparr>)
   \<and> exit_status (Uncaught UnicodeDecodeError) = 1"
proof -
  let ?w = "\<lparr>files = [(lit ''A.tsx'', Inr (lit ''<div initial={{ x: 1 }} />'')),
                    (lit ''B.tsx'', Inl UnicodeDecodeError),
                    (lit ''C.tsx'', Inr (lit ''<p initial={{ y: 2 }} />''))], stdout = []\<rparr>"
  have g: "glob_tsx (files ?w) = files ?w"
    by code_simp
  have mem: "(lit ''B.tsx'', Inl UnicodeDecodeError) \<in> set (glob_tsx (files ?w))"
    unfolding g by simp
  have a: "file_loop (glob_tsx (files ?w)) [] = Inl UnicodeDecodeError"
    unfolding g by simp
  from unreadable_file_aborts [OF mem] a show ?thesis
    by (auto simp: main_def)
qed

text \<open>
  Claim C8. What a run prints and how it ends depend on the directory listing alone,
  and a run leaves the listing as it found it: two runs on worlds with the same
  listing, such as a run and the run after it, end the same way and print the same
  text.
\<close>

theorem rerun_same_output:
  "files w' = files w \<Longrightarrow>
     fst (main w') = fst (main w)
     \<and> files (snd (main w)) = files w
     \<and> (\<exists>out. stdout (snd (main w)) = stdout w @ out
              \<and> stdout (snd (main w')) = stdout w' @ out)"
  by (cases "file_loop (glob_tsx (files w)) []") (simp_all add: main_eq)

theorem rerun_same_output_witness:
  "main \<lparr>files = [(lit ''App.tsx'', Inr (lit ''<a initial={{ o: 0 }}/>''))], stdout = []\<rparr>
     = (Normal,
        \<lparr>files = [(lit ''App.tsx'', Inr (lit ''<a initial={{ o: 0 }}/>''))],
         stdout = lit ''Found 1 remaining initial={} patterns:'' @ [NL, NL]
                  @ lit ''App.tsx:1: initial={{ o: 0 }}'' @ [NL]\<rparr>)
   \<and> main \<lparr>files = [(lit ''App.tsx'', Inr (lit ''<a initial={{ o: 0 }}/>''))],
            stdout = lit ''Found 1 remaining initial={} patterns:'' @ [NL, NL]
                  @ lit ''App.tsx:1: initial={{ o: 0 }}'' @ [NL]\<rparr>
     = (Normal,
        \<lparr>files = [(lit ''App.tsx'', Inr (lit ''<a initial={{ o: 0 }}/>''))],
         stdout = lit ''Found 1 remaining initial={} patterns:'' @ [NL, NL]
                  @ lit ''App.tsx:1: initial={{ o: 0 }}'' @ [NL]
                  @ lit ''Found 1 remaining initial={} patterns:'' @ [NL, NL]
                  @ lit ''App.tsx:1: initial={{ o: 0 }}'' @ [NL]\<rparr>)"
proof -
  let ?fs = "[(lit ''App.tsx'', Inr (lit ''<a initial={{ o: 0 }}/>''))]"
  let ?out = "lit ''Found 1 remaining initial={} patterns:'' @ [NL, NL]
                  @ lit ''App.tsx:1: initial={{ o: 0 }}'' @ [NL]"
  let ?w = "\<lparr>files = ?fs, stdout = []\<rparr>"
  let ?w1 = "\<lparr>files = ?fs, stdout = ?out\<rparr>"
  have run1: "main ?w = (Normal, ?w1)"
    by code_simp
  have same: "files ?w1 = files ?w"
    by simp
  from rerun_same_output [OF same] obtain out where
    x: "fst (main ?w1) = fst (main ?w)"
    and o1: "stdout (snd (main ?w)) = stdout ?w @ out"
    and o2: "stdout (snd (main ?w1)) = stdout ?w1 @ out"
    by blast
  from o1 run1 have out: "out = ?out"
    by simp
  have f: "files (snd (main ?w1)) = files ?w1"
    using rerun_same_output [of ?w1 ?w1] by blast
  have "main ?w1 = (fst (main ?w1), snd (main ?w1))"
    by simp
  also have "fst (main ?w1) = Normal"
    using x run1 by simp
  also have "snd (main ?w1) = \<lparr>files = ?fs, stdout = ?out @ ?out\<rparr>"
    using f o2 out by (cases "snd (main ?w1)") simp
  finally show ?thesis
    using run1 by simp
qed

end
